theory Spec2Isabelle
  imports Main "HOL-Library.Sublist"
begin

section \<open>Values, requests and the ambient libraries\<close>

text \<open>
  The action is one file, \<^verbatim>\<open>src/main.ts\<close>. It talks to three collaborators that
  are not part of the repository: the inputs of the workflow step (\<^verbatim>\<open>@actions/core\<close>),
  the trigger context and the client factory (\<^verbatim>\<open>@actions/github\<close>), and the REST
  client itself. Each of them is a parameter of the model. Every request the code
  issues is appended to a log of \<open>api_call\<close>s, so that "which calls were made" is a
  value theorems can talk about.
\<close>

text \<open>
  What a \<^verbatim>\<open>catch\<close> clause can receive: an instance of \<^verbatim>\<open>Error\<close>
  (any subclass, carrying its message) or some other value.
\<close>

datatype thrown = JsError (message: string) | NonError string

text \<open>One review as the listing returns it; \<^verbatim>\<open>id\<close> is the field \<open>review_id\<close>.\<close>

record review =
  review_id :: int
  state :: string
  commit_id :: "string option"

text \<open>A page of the listing: \<^verbatim>\<open>result.data\<close> and \<^verbatim>\<open>result.headers.link\<close>.\<close>

record reviews_response =
  data :: "review list"
  link :: "string option"

text \<open>
  The three operations of the client that the code uses, each either rejecting with a
  thrown value or resolving. Arguments in the order owner, repo, pull or issue number,
  then page, body, or review id and message.
\<close>

record octokit =
  listReviews :: "string \<Rightarrow> string \<Rightarrow> int \<Rightarrow> nat \<Rightarrow> thrown + reviews_response"
  createComment :: "string \<Rightarrow> string \<Rightarrow> int \<Rightarrow> string \<Rightarrow> thrown + unit"
  dismissReview :: "string \<Rightarrow> string \<Rightarrow> int \<Rightarrow> int \<Rightarrow> string \<Rightarrow> thrown + unit"

datatype api_call =
    ListReviews string string int nat
  | CreateComment string string int string
  | DismissReview string string int int string

text \<open>
  \<^verbatim>\<open>github.context\<close>: the pull request of the payload (only its number is read) and
  \<^verbatim>\<open>context.repo\<close>, taken as given; \<^verbatim>\<open>github.getOctokit\<close> builds the client from the
  token, or throws.
\<close>

record pull_request =
  number :: int

record gh_context =
  payload_pull_request :: "pull_request option"
  repo_owner :: string
  repo_repo :: string

record github =
  gh_context :: gh_context
  getOctokit :: "string \<Rightarrow> thrown + octokit"

subsection \<open>Strings\<close>

text \<open>\<^verbatim>\<open>str.includes(search)\<close>: \<open>search\<close> occurs in \<open>str\<close> as a contiguous run.\<close>

fun includes_str :: "string \<Rightarrow> string \<Rightarrow> bool" where
  "includes_str [] search = (search = [])"
| "includes_str (c # cs) search = (prefix search (c # cs) \<or> includes_str cs search)"

text \<open>
  \<^verbatim>\<open>str.trim()\<close>: it strips the white space and line terminator characters at
  both ends. A \<open>char\<close> holds eight bits, so of those characters the model has tab,
  line feed, vertical tab, form feed, carriage return, space and the no-break space
  U+00A0; the ones beyond U+00FF (U+FEFF, U+2028, U+2029, the other space separators)
  are not values of the type.
\<close>

definition is_space :: "char \<Rightarrow> bool" where
  "is_space c =
     (c \<in> set [CHR 0x09, CHR 0x0A, CHR 0x0B, CHR 0x0C, CHR 0x0D, CHR 0x20, CHR 0xA0])"

definition trim :: "string \<Rightarrow> string" where
  "trim s = rev (dropWhile is_space (rev (dropWhile is_space s)))"

text \<open>\<^verbatim>\<open>str.split(',')\<close>: the pieces between separators; always at least one piece.\<close>

fun split_str :: "char \<Rightarrow> string \<Rightarrow> string list" where
  "split_str sep [] = [[]]"
| "split_str sep (c # cs) =
     (if c = sep then [] # split_str sep cs
      else (case split_str sep cs of
              [] \<Rightarrow> [[c]]
            | piece # pieces \<Rightarrow> (c # piece) # pieces))"

text \<open>The decimal text of a natural number, as a template literal prints a length.\<close>

definition digit_char :: "nat \<Rightarrow> char" where
  "digit_char d = char_of (of_char (CHR ''0'') + d)"

function string_of_nat :: "nat \<Rightarrow> string" where
  "string_of_nat n =
     (if n < 10 then [digit_char n] else string_of_nat (n div 10) @ [digit_char (n mod 10)])"
  by pat_completeness auto
termination
  by (relation "measure id") auto

declare string_of_nat.simps [simp del]

subsection \<open>The inputs of the step\<close>

text \<open>
  \<^verbatim>\<open>core.getInput(name, {required})\<close> of \<^verbatim>\<open>@actions/core\<close>, a library outside the
  repository, as the library defines it: an input that is not set reads as the empty
  string; a required input that is empty throws an \<^verbatim>\<open>Error\<close> with the message
  below; the value is trimmed. The inputs are keyed by the name the source passes.
\<close>

type_synonym inputs = "string \<rightharpoonup> string"

definition getInput :: "inputs \<Rightarrow> string \<Rightarrow> bool \<Rightarrow> thrown + string" where
  "getInput inp name required =
     (let val = (case inp name of None \<Rightarrow> [] | Some v \<Rightarrow> v) in
      if required \<and> val = [] then Inl (JsError (''Input required and not supplied: '' @ name))
      else Inr (trim val))"

text \<open>
  \<^verbatim>\<open>core.getBooleanInput(name)\<close> of the same library: one of the YAML spellings of
  true or false, and a \<^verbatim>\<open>TypeError\<close> (an \<^verbatim>\<open>Error\<close>) for anything else, the empty
  string included.
\<close>

definition getBooleanInput :: "inputs \<Rightarrow> string \<Rightarrow> thrown + bool" where
  \<open>getBooleanInput inp name =
     (case getInput inp name False of
        Inl e \<Rightarrow> Inl e
      | Inr val \<Rightarrow>
          if val \<in> set [''true'', ''True'', ''TRUE''] then Inr True
          else if val \<in> set [''false'', ''False'', ''FALSE''] then Inr False
          else Inl (JsError
            (''Input does not meet YAML 1.2 "Core Schema" specification: '' @ name @
             [CHR 0x0A] @
             ''Support boolean input list: `true | True | TRUE | false | False | FALSE`'')))\<close>

section \<open>The Approval Collector\<close>

text \<open>
  \<^verbatim>\<open>getPullRequestApprovals\<close>, lines 55 to 86. The loop has no bound, so it is a
  partial function: \<open>None\<close> is a loop that never leaves. Each iteration logs its
  request, lets a rejection escape (\<open>Inl\<close>), appends the approved reviews of the page,
  and leaves when the link header is falsy (undefined or empty) or does not include
  \<^verbatim>\<open>rel="next"\<close>.
\<close>

partial_function (option) collect_pages ::
  "octokit \<Rightarrow> gh_context \<Rightarrow> int \<Rightarrow> nat \<Rightarrow> review list \<Rightarrow> api_call list
     \<Rightarrow> (api_call list \<times> (thrown + review list)) option"
where
  \<open>collect_pages octokit ctx prNumber page approvals calls =
     (let calls' = calls @ [ListReviews (repo_owner ctx) (repo_repo ctx) prNumber page] in
      case listReviews octokit (repo_owner ctx) (repo_repo ctx) prNumber page of
        Inl e \<Rightarrow> Some (calls', Inl e)
      | Inr result \<Rightarrow>
          (let approvals' =
                 approvals @ filter (\<lambda>review. state review = ''APPROVED'') (data result) in
           if (case link result of
                 None \<Rightarrow> True
               | Some l \<Rightarrow> l = [] \<or> \<not> includes_str l ''rel="next"'')
           then Some (calls', Inr approvals')
           else collect_pages octokit ctx prNumber (page + 1) approvals' calls'))\<close>

declare collect_pages.simps [code]

definition getPullRequestApprovals ::
  "octokit \<Rightarrow> gh_context \<Rightarrow> int \<Rightarrow> (api_call list \<times> (thrown + review list)) option"
where
  "getPullRequestApprovals octokit ctx prNumber = collect_pages octokit ctx prNumber 1 [] []"

section \<open>The Exclusion Filter\<close>

text \<open>
  Lines 23 to 26: the optional input \<^verbatim>\<open>excluding-shas\<close>, split at commas, each piece
  trimmed; the empty input gives the empty list.
\<close>

definition excludingShas_of :: "string \<Rightarrow> string list" where
  "excludingShas_of excludingShasInput =
     (if excludingShasInput \<noteq> [] then map trim (split_str (CHR '','') excludingShasInput)
      else [])"

text \<open>
  Lines 28 to 35: with a non-empty list, keep an approval whose \<^verbatim>\<open>commit_id\<close> is
  \<^verbatim>\<open>null\<close> or is not in the list; with the empty list, keep them all.
\<close>

definition approvalsToProcess :: "string list \<Rightarrow> review list \<Rightarrow> review list" where
  "approvalsToProcess excludingShas approvals =
     (if length excludingShas > 0
      then filter (\<lambda>approval. case commit_id approval of
                                  None \<Rightarrow> True
                                | Some sha \<Rightarrow> sha \<notin> set excludingShas) approvals
      else approvals)"

section \<open>The Dismissal Executor\<close>

text \<open>
  \<^verbatim>\<open>Promise.all\<close> over calls that have all been started: it resolves when none
  rejects. Which rejection wins when several calls reject depends on timing the
  source does not fix; the model reports the first in list order.
\<close>

fun promise_all :: "(thrown + unit) list \<Rightarrow> thrown + unit" where
  "promise_all [] = Inr ()"
| "promise_all (Inl e # rs) = Inl e"
| "promise_all (Inr u # rs) = promise_all rs"

text \<open>
  \<^verbatim>\<open>dismissApprovals\<close>, lines 88 to 124: nothing for the empty list (the dry-run
  input is not even read); one comment in a dry run; otherwise \<^verbatim>\<open>map\<close> starts one
  dismissal per id before any of them is awaited, so all of them are issued.
\<close>

definition dismissApprovals ::
  "inputs \<Rightarrow> octokit \<Rightarrow> gh_context \<Rightarrow> int list \<Rightarrow> int \<Rightarrow> string
     \<Rightarrow> api_call list \<times> (thrown + unit)"
where
  "dismissApprovals inp octokit ctx approvalIds prNumber reason =
     (if length approvalIds = 0 then ([], Inr ())
      else
        case getBooleanInput inp ''dry-run'' of
          Inl e \<Rightarrow> ([], Inl e)
        | Inr True \<Rightarrow>
            (let body = ''dismiss_stale_approvals dry run: Would have dismissed '' @
                        string_of_nat (length approvalIds) @ '' approvals with reason:'' @
                        [CHR 0x0A, CHR 0x0A] @ reason
             in ([CreateComment (repo_owner ctx) (repo_repo ctx) prNumber body],
                 createComment octokit (repo_owner ctx) (repo_repo ctx) prNumber body))
        | Inr False \<Rightarrow>
            (map (\<lambda>approvalId.
                    DismissReview (repo_owner ctx) (repo_repo ctx) prNumber approvalId reason)
               approvalIds,
             promise_all
               (map (\<lambda>approvalId.
                       dismissReview octokit (repo_owner ctx) (repo_repo ctx) prNumber
                         approvalId reason)
                  approvalIds)))"

section \<open>The run\<close>

text \<open>
  The body of the \<^verbatim>\<open>try\<close> block of \<^verbatim>\<open>run\<close>, lines 10 to 42, statement by
  statement: the token, the pull request of the payload, the client, the approvals,
  the exclusion list, the filter, the ids, the reason (an argument of the call, so
  read just before it), the executor. The result is the log of the requests issued
  and either the value thrown or normal completion; \<open>None\<close> when the collector
  never returns.
\<close>

definition try_block :: "inputs \<Rightarrow> github \<Rightarrow> (api_call list \<times> (thrown + unit)) option" where
  "try_block inp gh =
     (case getInput inp ''github-token'' True of
        Inl e \<Rightarrow> Some ([], Inl e)
      | Inr token \<Rightarrow>
     (case payload_pull_request (gh_context gh) of
        None \<Rightarrow>
          Some ([], Inl (JsError
            ''event context does not contain pull request data - ensure this action was triggered on a `pull_request` event''))
      | Some pr \<Rightarrow>
     (case getOctokit gh token of
        Inl e \<Rightarrow> Some ([], Inl e)
      | Inr octokit \<Rightarrow>
     (case getPullRequestApprovals octokit (gh_context gh) (number pr) of
        None \<Rightarrow> None
      | Some (calls, Inl e) \<Rightarrow> Some (calls, Inl e)
      | Some (calls, Inr approvals) \<Rightarrow>
     (case getInput inp ''excluding-shas'' False of
        Inl e \<Rightarrow> Some (calls, Inl e)
      | Inr excludingShasInput \<Rightarrow>
          (let excludingShas = excludingShas_of excludingShasInput;
               toProcess = approvalsToProcess excludingShas approvals;
               approvalIds = map review_id toProcess
           in case getInput inp ''reason'' True of
                Inl e \<Rightarrow> Some (calls, Inl e)
              | Inr reason \<Rightarrow>
                  (case dismissApprovals inp octokit (gh_context gh) approvalIds (number pr)
                          reason of
                     (calls', r) \<Rightarrow> Some (calls @ calls', r))))))))"

text \<open>
  What the run leaves behind besides its requests: the lines written with
  \<^verbatim>\<open>console.warn\<close> and the message given to \<^verbatim>\<open>core.setFailed\<close>, if any.
\<close>

record outcome =
  warnings :: "string list"
  failed :: "string option"

text \<open>The \<^verbatim>\<open>catch\<close> block, lines 43 to 50.\<close>

definition on_catch :: "thrown \<Rightarrow> outcome" where
  "on_catch error =
     (case error of
        JsError msg \<Rightarrow>
          \<lparr>warnings = (if includes_str msg ''Not Found''
                        then [''Did you set the correct permissions?''] else []),
           failed = Some msg\<rparr>
      | NonError v \<Rightarrow> \<lparr>warnings = [], failed = None\<rparr>)"

definition run :: "inputs \<Rightarrow> github \<Rightarrow> (api_call list \<times> outcome) option" where
  "run inp gh =
     (case try_block inp gh of
        None \<Rightarrow> None
      | Some (calls, Inl error) \<Rightarrow> Some (calls, on_catch error)
      | Some (calls, Inr u) \<Rightarrow> Some (calls, \<lparr>warnings = [], failed = None\<rparr>))"

section \<open>Vocabulary of the properties\<close>

text \<open>
  A page advertises a next page when its link header is there and names the relation
  \<^verbatim>\<open>rel="next"\<close> somewhere in it. This is the reading of the header that the
  properties below are stated with; \<open>sublist\<close> is the library's notion of a
  contiguous run.
\<close>

definition advertises_next :: "reviews_response \<Rightarrow> bool" where
  \<open>advertises_next result =
     (case link result of None \<Rightarrow> False | Some l \<Rightarrow> sublist ''rel="next"'' l)\<close>

text \<open>
  The client answers the listing of pages \<open>1, 2, \<dots>, length pages\<close> of this pull
  request with the responses \<open>pages\<close>, in this order.
\<close>

definition on_pages :: "octokit \<Rightarrow> gh_context \<Rightarrow> int \<Rightarrow> reviews_response list \<Rightarrow> bool" where
  "on_pages octokit ctx prNumber pages =
     (\<forall>i < length pages.
        listReviews octokit (repo_owner ctx) (repo_repo ctx) prNumber (Suc i) = Inr (pages ! i))"

text \<open>Shorthands for one iteration of the loop, used in the proofs about it.\<close>

definition is_approved :: "review \<Rightarrow> bool" where
  "is_approved review = (state review = ''APPROVED'')"

definition page_of :: "octokit \<Rightarrow> gh_context \<Rightarrow> int \<Rightarrow> nat \<Rightarrow> thrown + reviews_response" where
  "page_of octokit ctx prNumber page =
     listReviews octokit (repo_owner ctx) (repo_repo ctx) prNumber page"

definition request_of :: "gh_context \<Rightarrow> int \<Rightarrow> nat \<Rightarrow> api_call" where
  "request_of ctx prNumber page = ListReviews (repo_owner ctx) (repo_repo ctx) prNumber page"

definition approved_on :: "octokit \<Rightarrow> gh_context \<Rightarrow> int \<Rightarrow> nat \<Rightarrow> review list" where
  "approved_on octokit ctx prNumber page =
     (case page_of octokit ctx prNumber page of
        Inl e \<Rightarrow> []
      | Inr result \<Rightarrow> filter is_approved (data result))"

definition more_after :: "octokit \<Rightarrow> gh_context \<Rightarrow> int \<Rightarrow> nat \<Rightarrow> bool" where
  "more_after octokit ctx prNumber page =
     (case page_of octokit ctx prNumber page of
        Inl e \<Rightarrow> False
      | Inr result \<Rightarrow> advertises_next result)"

definition last_page :: "octokit \<Rightarrow> gh_context \<Rightarrow> int \<Rightarrow> nat \<Rightarrow> bool" where
  "last_page octokit ctx prNumber page =
     (case page_of octokit ctx prNumber page of
        Inl e \<Rightarrow> False
      | Inr result \<Rightarrow> \<not> advertises_next result)"

text \<open>The calls of a log that post a comment, and those that dismiss a review.\<close>

fun is_comment :: "api_call \<Rightarrow> bool" where
  "is_comment (CreateComment owner repo issue_number body) = True"
| "is_comment call = False"

fun is_dismissal :: "api_call \<Rightarrow> bool" where
  "is_dismissal (DismissReview owner repo pull_number approvalId reason) = True"
| "is_dismissal call = False"

fun is_listing :: "api_call \<Rightarrow> bool" where
  "is_listing (ListReviews owner repo pull_number page) = True"
| "is_listing call = False"

text \<open>The value of a decimal digit, to read a printed number back.\<close>

definition digit_value :: "char \<Rightarrow> nat" where
  "digit_value c = of_char c - of_char (CHR ''0'')"

section \<open>Sample runs\<close>

text \<open>
  Concrete collaborators on which the theorems are exercised: five reviews over three
  pages of pull request 7 of \<^verbatim>\<open>acme/widgets\<close>, a client that serves a given list of
  pages and accepts every comment and dismissal, and a client factory around it.
\<close>

definition review_1 :: review where
  "review_1 = \<lparr>review_id = 1, state = ''APPROVED'', commit_id = Some ''abc''\<rparr>"

definition review_2 :: review where
  "review_2 = \<lparr>review_id = 2, state = ''COMMENTED'', commit_id = Some ''abc''\<rparr>"

definition review_3 :: review where
  "review_3 = \<lparr>review_id = 3, state = ''APPROVED'', commit_id = None\<rparr>"

definition review_4 :: review where
  "review_4 = \<lparr>review_id = 4, state = ''APPROVED'', commit_id = Some ''def''\<rparr>"

definition review_5 :: review where
  "review_5 = \<lparr>review_id = 5, state = ''CHANGES_REQUESTED'', commit_id = Some ''def''\<rparr>"

definition three_pages :: "reviews_response list" where
  \<open>three_pages =
     [\<lparr>data = [review_1, review_2],
       link = Some ''<https://api/reviews?page=2>; rel="next"''\<rparr>,
      \<lparr>data = [review_3],
       link = Some ''<https://api/reviews?page=1>; rel="prev", <https://api/reviews?page=3>; rel="next"''\<rparr>,
      \<lparr>data = [review_4, review_5],
       link = Some ''<https://api/reviews?page=2>; rel="prev"''\<rparr>]\<close>

definition paged_octokit :: "reviews_response list \<Rightarrow> octokit" where
  "paged_octokit pages =
     \<lparr>listReviews = (\<lambda>owner repo pull_number page.
        if 1 \<le> page \<and> page \<le> length pages then Inr (pages ! (page - 1))
        else Inl (JsError ''Not Found'')),
      createComment = (\<lambda>owner repo issue_number body. Inr ()),
      dismissReview = (\<lambda>owner repo pull_number approvalId reason. Inr ())\<rparr>"

definition widgets_pr7 :: gh_context where
  "widgets_pr7 =
     \<lparr>payload_pull_request = Some \<lparr>number = 7\<rparr>, repo_owner = ''acme'',
      repo_repo = ''widgets''\<rparr>"

definition widgets_push :: gh_context where
  "widgets_push =
     \<lparr>payload_pull_request = None, repo_owner = ''acme'', repo_repo = ''widgets''\<rparr>"

definition github_of :: "gh_context \<Rightarrow> octokit \<Rightarrow> github" where
  "github_of ctx octokit = \<lparr>gh_context = ctx, getOctokit = (\<lambda>token. Inr octokit)\<rparr>"

text \<open>
  Inputs of the step: a dry run, a live run with an exclusion list, a run without the
  reason, one without the token, and one whose token is the empty string.
\<close>

definition inputs_dry_run :: inputs where
  "inputs_dry_run =
     map_of [(''github-token'', ''t0ken''), (''reason'', ''stale''), (''dry-run'', ''true'')]"

definition inputs_live :: inputs where
  "inputs_live =
     map_of [(''github-token'', ''t0ken''), (''reason'', ''stale''), (''dry-run'', ''false''),
             (''excluding-shas'', ''abc, 123'')]"

definition inputs_no_reason :: inputs where
  "inputs_no_reason = map_of [(''github-token'', ''t0ken''), (''dry-run'', ''false'')]"

definition inputs_no_token :: inputs where
  "inputs_no_token = map_of [(''reason'', ''stale''), (''dry-run'', ''false'')]"

definition inputs_blank_token :: inputs where
  "inputs_blank_token =
     map_of [(''github-token'', ''''), (''reason'', ''stale''), (''dry-run'', ''false'')]"

text \<open>
  A pull request whose only page has no approved review, one with a single approval,
  and a client all of whose calls reject with a given value.
\<close>

definition quiet_page :: "reviews_response list" where
  "quiet_page = [\<lparr>data = [review_2, review_5], link = None\<rparr>]"

definition rejecting_octokit :: "thrown \<Rightarrow> octokit" where
  "rejecting_octokit e =
     \<lparr>listReviews = (\<lambda>owner repo pull_number page. Inl e),
      createComment = (\<lambda>owner repo issue_number body. Inl e),
      dismissReview = (\<lambda>owner repo pull_number approvalId reason. Inl e)\<rparr>"

definition single_page :: "reviews_response list" where
  "single_page = [\<lparr>data = [review_1], link = None\<rparr>]"

section \<open>The loop of the collector\<close>

lemma is_approved_fun: "(\<lambda>review. state review = ''APPROVED'') = is_approved"
  by (simp add: is_approved_def fun_eq_iff)

lemma includes_str_sublist: "includes_str str search \<longleftrightarrow> sublist search str"
  by (induction str) (auto simp: sublist_Cons_right)

lemma advertises_next_includes:
  \<open>advertises_next result =
     (case link result of None \<Rightarrow> False | Some l \<Rightarrow> includes_str l ''rel="next"'')\<close>
  by (simp add: advertises_next_def includes_str_sublist split: option.splits)

text \<open>The condition under which the loop breaks is the negation of \<open>advertises_next\<close>.\<close>

lemma leaves_iff:
  \<open>(case link result of None \<Rightarrow> True | Some l \<Rightarrow> l = [] \<or> \<not> includes_str l ''rel="next"'')
     \<longleftrightarrow> \<not> advertises_next result\<close>
  by (auto simp: advertises_next_def includes_str_sublist split: option.splits)

lemma collect_pages_last:
  assumes "last_page octokit ctx prNumber page"
  shows "collect_pages octokit ctx prNumber page approvals calls =
           Some (calls @ [request_of ctx prNumber page],
                 Inr (approvals @ approved_on octokit ctx prNumber page))"
  using assms
  by (subst collect_pages.simps)
     (auto simp: last_page_def page_of_def request_of_def approved_on_def is_approved_fun
        leaves_iff Let_def split: sum.splits)

lemma collect_pages_more:
  assumes "more_after octokit ctx prNumber page"
  shows "collect_pages octokit ctx prNumber page approvals calls =
           collect_pages octokit ctx prNumber (Suc page)
             (approvals @ approved_on octokit ctx prNumber page)
             (calls @ [request_of ctx prNumber page])"
  using assms
  by (subst collect_pages.simps)
     (auto simp: more_after_def page_of_def request_of_def approved_on_def is_approved_fun
        leaves_iff Let_def split: sum.splits)

lemma collect_pages_rejected:
  assumes "page_of octokit ctx prNumber page = Inl e"
  shows "collect_pages octokit ctx prNumber page approvals calls =
           Some (calls @ [request_of ctx prNumber page], Inl e)"
  using assms
  by (subst collect_pages.simps) (auto simp: page_of_def request_of_def Let_def)

text \<open>
  From any page on: when the pages up to \<open>N\<close> advertise a next one and page \<open>N\<close> does
  not, the loop asks for each of them once, in order, and returns what it gathered.
  Induction on the number of pages left.
\<close>

lemma collect_pages_upto:
  assumes "\<forall>p. page \<le> p \<and> p < N \<longrightarrow> more_after octokit ctx prNumber p"
    and "page \<le> N" and "last_page octokit ctx prNumber N"
  shows "collect_pages octokit ctx prNumber page approvals calls =
           Some (calls @ map (request_of ctx prNumber) [page..<Suc N],
                 Inr (approvals @ concat (map (approved_on octokit ctx prNumber) [page..<Suc N])))"
  using assms
proof (induction "N - page" arbitrary: page approvals calls)
  case 0
  then have "page = N" by simp
  with 0 show ?case by (simp add: collect_pages_last)
next
  case (Suc k)
  then have lt: "page < N" by simp
  with Suc.prems have more: "more_after octokit ctx prNumber page" by simp
  have ih: "collect_pages octokit ctx prNumber (Suc page) approvals' calls' =
      Some (calls' @ map (request_of ctx prNumber) [Suc page..<Suc N],
            Inr (approvals' @ concat (map (approved_on octokit ctx prNumber) [Suc page..<Suc N])))"
    for approvals' calls'
    using Suc.hyps(1)[of "Suc page"] Suc.hyps(2) Suc.prems lt by simp
  have up: "[page..<Suc N] = page # [Suc page..<Suc N]"
    using lt by (simp add: upt_conv_Cons)
  show ?case
    by (simp add: collect_pages_more[OF more] ih up del: upt_Suc)
qed

text \<open>
  Whatever the client answers: when the loop returns at all, it has asked for the
  pages from \<open>page\<close> up to some \<open>N\<close>, every page before \<open>N\<close> advertised a next one,
  and page \<open>N\<close> did not (it was rejected or lacked the relation).
\<close>

lemma collect_pages_returns_only:
  assumes "collect_pages octokit ctx prNumber page approvals calls = Some out"
  shows "\<exists>N. page \<le> N \<and> (\<forall>p. page \<le> p \<and> p < N \<longrightarrow> more_after octokit ctx prNumber p) \<and>
             \<not> more_after octokit ctx prNumber N \<and>
             fst out = calls @ map (request_of ctx prNumber) [page..<Suc N]"
proof (rule collect_pages.raw_induct[where P = "\<lambda>octokit ctx prNumber page approvals calls out.
         \<exists>N. page \<le> N \<and> (\<forall>p. page \<le> p \<and> p < N \<longrightarrow> more_after octokit ctx prNumber p) \<and>
             \<not> more_after octokit ctx prNumber N \<and>
             fst out = calls @ map (request_of ctx prNumber) [page..<Suc N]", OF _ assms])
  fix collect :: "octokit \<Rightarrow> gh_context \<Rightarrow> int \<Rightarrow> nat \<Rightarrow> review list \<Rightarrow> api_call list
      \<Rightarrow> (api_call list \<times> (thrown + review list)) option"
    and octokit ctx prNumber page approvals calls out
  assume IH: "\<And>octokit ctx prNumber page approvals calls out.
      collect octokit ctx prNumber page approvals calls = Some out \<Longrightarrow>
      \<exists>N. page \<le> N \<and> (\<forall>p. page \<le> p \<and> p < N \<longrightarrow> more_after octokit ctx prNumber p) \<and>
             \<not> more_after octokit ctx prNumber N \<and>
             fst out = calls @ map (request_of ctx prNumber) [page..<Suc N]"
  assume step: \<open>(let calls' = calls @ [ListReviews (repo_owner ctx) (repo_repo ctx) prNumber page] in
      case listReviews octokit (repo_owner ctx) (repo_repo ctx) prNumber page of
        Inl e \<Rightarrow> Some (calls', Inl e)
      | Inr result \<Rightarrow>
          (let approvals' =
                 approvals @ filter (\<lambda>review. state review = ''APPROVED'') (data result) in
           if (case link result of
                 None \<Rightarrow> True
               | Some l \<Rightarrow> l = [] \<or> \<not> includes_str l ''rel="next"'')
           then Some (calls', Inr approvals')
           else collect octokit ctx prNumber (page + 1) approvals' calls')) = Some out\<close>
  show "\<exists>N. page \<le> N \<and> (\<forall>p. page \<le> p \<and> p < N \<longrightarrow> more_after octokit ctx prNumber p) \<and>
             \<not> more_after octokit ctx prNumber N \<and>
             fst out = calls @ map (request_of ctx prNumber) [page..<Suc N]"
  proof (cases "more_after octokit ctx prNumber page")
    case False
    have "fst out = calls @ [request_of ctx prNumber page]"
      using step False
      by (auto simp: more_after_def page_of_def request_of_def leaves_iff Let_def
            split: sum.splits if_splits)
    with False show ?thesis
      by (intro exI[of _ page]) auto
  next
    case True
    then obtain approvals' where "collect octokit ctx prNumber (page + 1) approvals'
        (calls @ [request_of ctx prNumber page]) = Some out"
      using step
      by (auto simp: more_after_def page_of_def request_of_def leaves_iff Let_def
            split: sum.splits if_splits)
    from IH[OF this] obtain N where N: "page + 1 \<le> N"
      "\<forall>p. page + 1 \<le> p \<and> p < N \<longrightarrow> more_after octokit ctx prNumber p"
      "\<not> more_after octokit ctx prNumber N"
      "fst out = (calls @ [request_of ctx prNumber page]) @ map (request_of ctx prNumber) [page + 1..<Suc N]"
      by (elim exE conjE)
    have "\<forall>p. page \<le> p \<and> p < N \<longrightarrow> more_after octokit ctx prNumber p"
    proof (intro allI impI)
      fix p assume "page \<le> p \<and> p < N"
      then consider "p = page" | "page + 1 \<le> p \<and> p < N" by force
      then show "more_after octokit ctx prNumber p"
        using True N(2) by cases auto
    qed
    moreover have "[page..<Suc N] = page # [page + 1..<Suc N]"
      using N(1) by (simp add: upt_conv_Cons del: upt_Suc)
    ultimately show ?thesis
      using N(1,3,4) by (intro exI[of _ N]) (simp del: upt_Suc)
  qed
qed

text \<open>So a client whose every page advertises a next one keeps the loop running.\<close>

lemma collect_pages_diverges:
  assumes "\<forall>p. page \<le> p \<longrightarrow> more_after octokit ctx prNumber p"
  shows "collect_pages octokit ctx prNumber page approvals calls = None"
proof (cases "collect_pages octokit ctx prNumber page approvals calls")
  case None then show ?thesis .
next
  case (Some out)
  from collect_pages_returns_only[OF this] assms show ?thesis by blast
qed

lemma collect_pages_approved:
  assumes "collect_pages octokit ctx prNumber page approvals calls = Some out"
  shows "\<forall>found. snd out = Inr found \<longrightarrow> (\<forall>a \<in> set approvals. is_approved a) \<longrightarrow>
           (\<forall>a \<in> set found. is_approved a)"
proof (rule collect_pages.raw_induct[where P = "\<lambda>octokit ctx prNumber page approvals calls out.
         \<forall>found. snd out = Inr found \<longrightarrow> (\<forall>a \<in> set approvals. is_approved a) \<longrightarrow>
           (\<forall>a \<in> set found. is_approved a)", OF _ assms])
  fix collect :: "octokit \<Rightarrow> gh_context \<Rightarrow> int \<Rightarrow> nat \<Rightarrow> review list \<Rightarrow> api_call list
      \<Rightarrow> (api_call list \<times> (thrown + review list)) option"
    and octokit ctx prNumber page approvals calls out
  assume IH: "\<And>octokit ctx prNumber page approvals calls out.
      collect octokit ctx prNumber page approvals calls = Some out \<Longrightarrow>
      \<forall>found. snd out = Inr found \<longrightarrow> (\<forall>a \<in> set approvals. is_approved a) \<longrightarrow>
           (\<forall>a \<in> set found. is_approved a)"
  assume step: \<open>(let calls' = calls @ [ListReviews (repo_owner ctx) (repo_repo ctx) prNumber page] in
      case listReviews octokit (repo_owner ctx) (repo_repo ctx) prNumber page of
        Inl e \<Rightarrow> Some (calls', Inl e)
      | Inr result \<Rightarrow>
          (let approvals' =
                 approvals @ filter (\<lambda>review. state review = ''APPROVED'') (data result) in
           if (case link result of
                 None \<Rightarrow> True
               | Some l \<Rightarrow> l = [] \<or> \<not> includes_str l ''rel="next"'')
           then Some (calls', Inr approvals')
           else collect octokit ctx prNumber (page + 1) approvals' calls')) = Some out\<close>
  show "\<forall>found. snd out = Inr found \<longrightarrow> (\<forall>a \<in> set approvals. is_approved a) \<longrightarrow>
           (\<forall>a \<in> set found. is_approved a)"
  proof (cases "listReviews octokit (repo_owner ctx) (repo_repo ctx) prNumber page")
    case (Inl e)
    with step have "snd out = Inl e" by (auto simp: Let_def)
    then show ?thesis by simp
  next
    case (Inr result)
    show ?thesis
    proof (cases "advertises_next result")
      case False
      with step Inr have "snd out = Inr (approvals @ filter is_approved (data result))"
        by (auto simp: Let_def leaves_iff is_approved_fun)
      then show ?thesis by auto
    next
      case True
      with step Inr have "collect octokit ctx prNumber (page + 1)
          (approvals @ filter is_approved (data result))
          (calls @ [ListReviews (repo_owner ctx) (repo_repo ctx) prNumber page]) = Some out"
        by (simp add: Let_def leaves_iff is_approved_fun)
      from IH[OF this] have ih: "\<forall>a \<in> set found. is_approved a"
        if "snd out = Inr found"
          and "\<forall>a \<in> set (approvals @ filter is_approved (data result)). is_approved a"
        for found
        using that by blast
      show ?thesis
      proof (intro allI impI)
        fix found
        assume out: "snd out = Inr found" and "\<forall>a \<in> set approvals. is_approved a"
        then have "\<forall>a \<in> set (approvals @ filter is_approved (data result)). is_approved a"
          by auto
        with out show "\<forall>a \<in> set found. is_approved a" by (rule ih)
      qed
    qed
  qed
qed

section \<open>The collector on a sequence of pages\<close>

lemma pages_index: "map (\<lambda>p. f (pages ! (p - 1))) [1..<Suc (length pages)] = map f pages"
proof -
  have "[1..<Suc (length pages)] = map Suc [0..<length pages]"
    by (simp only: map_Suc_upt One_nat_def)
  then have "map (\<lambda>p. f (pages ! (p - 1))) [1..<Suc (length pages)] =
      map (\<lambda>i. f (pages ! i)) [0..<length pages]"
    by (simp add: comp_def del: upt_Suc)
  also have "\<dots> = map f (map (\<lambda>i. pages ! i) [0..<length pages])"
    by (simp add: comp_def)
  also have "\<dots> = map f pages"
    by (simp only: map_nth)
  finally show ?thesis .
qed

text \<open>
  The whole behaviour of the collector on \<open>N\<close> pages of which only the last lacks the
  next relation: its requests and its result.
\<close>

lemma getPullRequestApprovals_on_pages:
  assumes "pages \<noteq> []"
    and "on_pages octokit ctx prNumber pages"
    and "\<forall>r \<in> set (butlast pages). advertises_next r"
    and "\<not> advertises_next (last pages)"
  shows "getPullRequestApprovals octokit ctx prNumber =
           Some (map (\<lambda>page. ListReviews (repo_owner ctx) (repo_repo ctx) prNumber page)
                   [1..<Suc (length pages)],
                 Inr (filter is_approved (concat (map data pages))))"
proof -
  let ?N = "length pages"
  have N: "1 \<le> ?N" using assms(1) by (cases pages) auto
  have page: "page_of octokit ctx prNumber p = Inr (pages ! (p - 1))"
    if "1 \<le> p" "p \<le> ?N" for p
    using assms(2) that by (cases p) (auto simp: on_pages_def page_of_def)
  have more: "\<forall>p. 1 \<le> p \<and> p < ?N \<longrightarrow> more_after octokit ctx prNumber p"
  proof (intro allI impI)
    fix p assume p: "1 \<le> p \<and> p < ?N"
    then have lt: "p - 1 < length (butlast pages)" by (simp only: length_butlast) arith
    then have "butlast pages ! (p - 1) \<in> set (butlast pages)" by (rule nth_mem)
    moreover have "butlast pages ! (p - 1) = pages ! (p - 1)"
      using lt by (rule nth_butlast)
    ultimately have "advertises_next (pages ! (p - 1))" using assms(3) by auto
    then show "more_after octokit ctx prNumber p"
      using p by (simp add: more_after_def page)
  qed
  have "last pages = pages ! (?N - 1)"
    using assms(1) by (simp add: last_conv_nth)
  then have lastp: "last_page octokit ctx prNumber ?N"
    using assms(4) N by (simp add: last_page_def page)
  have calls: "map (request_of ctx prNumber) [1..<Suc ?N] =
      map (\<lambda>page. ListReviews (repo_owner ctx) (repo_repo ctx) prNumber page) [1..<Suc ?N]"
    by (simp add: request_of_def fun_eq_iff)
  have "map (approved_on octokit ctx prNumber) [1..<Suc ?N] =
      map (\<lambda>p. filter is_approved (data (pages ! (p - 1)))) [1..<Suc ?N]"
    by (rule map_cong) (auto simp: approved_on_def page)
  also have "\<dots> = map (\<lambda>r. filter is_approved (data r)) pages"
    by (rule pages_index)
  finally have "concat (map (approved_on octokit ctx prNumber) [1..<Suc ?N]) =
      filter is_approved (concat (map data pages))"
    by (simp add: filter_concat comp_def)
  then show ?thesis
    unfolding getPullRequestApprovals_def
    using collect_pages_upto[OF more N lastp, of "[]" "[]"] calls by simp
qed

text \<open>The two ways in which the collector does not return a list.\<close>

lemma getPullRequestApprovals_never_returns:
  assumes "\<forall>p. 1 \<le> p \<longrightarrow> more_after octokit ctx prNumber p"
  shows "getPullRequestApprovals octokit ctx prNumber = None"
  unfolding getPullRequestApprovals_def using assms by (rule collect_pages_diverges)

lemma getPullRequestApprovals_rejected:
  assumes "listReviews octokit (repo_owner ctx) (repo_repo ctx) prNumber 1 = Inl e"
  shows "getPullRequestApprovals octokit ctx prNumber =
           Some ([ListReviews (repo_owner ctx) (repo_repo ctx) prNumber 1], Inl e)"
  unfolding getPullRequestApprovals_def
  using collect_pages_rejected[of octokit ctx prNumber 1 e "[]" "[]"] assms
  by (simp add: page_of_def request_of_def)

text \<open>When it returns, the log holds listing requests only.\<close>

lemma getPullRequestApprovals_lists_only:
  assumes "getPullRequestApprovals octokit ctx prNumber = Some (calls, r)"
  shows "\<forall>c \<in> set calls. is_listing c"
proof -
  from assms have "collect_pages octokit ctx prNumber 1 [] [] = Some (calls, r)"
    by (simp add: getPullRequestApprovals_def)
  from collect_pages_returns_only[OF this]
  obtain N where "calls = map (request_of ctx prNumber) [1..<Suc N]" by auto
  then show ?thesis by (simp add: request_of_def)
qed

lemma on_pages_paged_octokit: "on_pages (paged_octokit pages) ctx prNumber pages"
  by (simp add: on_pages_def paged_octokit_def)

lemma three_pages_shape:
  "three_pages \<noteq> []" "\<forall>r \<in> set (butlast three_pages). advertises_next r"
  "\<not> advertises_next (last three_pages)"
  by (simp_all add: three_pages_def advertises_next_includes)

section \<open>Reading the inputs\<close>

lemma getInput_required_absent:
  assumes "inp name = None \<or> inp name = Some []"
  shows "getInput inp name True = Inl (JsError (''Input required and not supplied: '' @ name))"
  using assms by (auto simp: getInput_def)

lemma getInput_required_present:
  assumes "inp name = Some v" and "v \<noteq> []"
  shows "getInput inp name True = Inr (trim v)"
  using assms by (simp add: getInput_def)

lemma getInput_optional:
  "getInput inp name False = Inr (trim (case inp name of None \<Rightarrow> [] | Some v \<Rightarrow> v))"
  by (simp add: getInput_def)

section \<open>The decimal text of the count\<close>

lemma digit_value_digit_char: "d < 10 \<Longrightarrow> digit_value (digit_char d) = d"
  by (simp add: digit_value_def digit_char_def)

lemma digit_char_in_digits: "d < 10 \<Longrightarrow> digit_char d \<in> set ''0123456789''"
proof -
  assume "d < 10"
  have "\<forall>d \<in> set [0..<10]. digit_char d \<in> set ''0123456789''"
    by code_simp
  with \<open>d < 10\<close> show ?thesis by simp
qed

lemma string_of_nat_digits: "set (string_of_nat n) \<subseteq> set ''0123456789''"
proof (induction n rule: string_of_nat.induct)
  case (1 n)
  show ?case
  proof (cases "n < 10")
    case True
    then show ?thesis
      using digit_char_in_digits[of n] by (subst string_of_nat.simps) simp
  next
    case False
    then have "set (string_of_nat (n div 10)) \<subseteq> set ''0123456789''" by (rule 1)
    moreover have "digit_char (n mod 10) \<in> set ''0123456789''"
      by (rule digit_char_in_digits) simp
    ultimately show ?thesis
      using False by (subst string_of_nat.simps) simp
  qed
qed

lemma string_of_nat_value:
  "foldl (\<lambda>acc c. 10 * acc + digit_value c) 0 (string_of_nat n) = n"
proof (induction n rule: string_of_nat.induct)
  case (1 n)
  show ?case
  proof (cases "n < 10")
    case True
    then show ?thesis
      by (subst string_of_nat.simps) (simp add: digit_value_digit_char)
  next
    case False
    then have "foldl (\<lambda>acc c. 10 * acc + digit_value c) 0 (string_of_nat (n div 10)) = n div 10"
      by (rule 1)
    then show ?thesis
      using False
      by (subst string_of_nat.simps) (simp add: digit_value_digit_char)
  qed
qed

text \<open>The text is never empty, and a positive number is printed without a leading zero.\<close>

lemma string_of_nat_nonempty: "string_of_nat n \<noteq> []"
  by (subst string_of_nat.simps) simp

lemma digit_char_not_zero: "0 < d \<Longrightarrow> d < 10 \<Longrightarrow> digit_char d \<noteq> CHR ''0''"
proof -
  assume "0 < d" "d < 10"
  have "\<forall>d \<in> set [1..<10]. digit_char d \<noteq> CHR ''0''"
    by code_simp
  with \<open>0 < d\<close> \<open>d < 10\<close> show ?thesis by simp
qed

lemma string_of_nat_no_leading_zero: "0 < n \<Longrightarrow> hd (string_of_nat n) \<noteq> CHR ''0''"
proof (induction n rule: string_of_nat.induct)
  case (1 n)
  show ?case
  proof (cases "n < 10")
    case True
    with 1(2) show ?thesis
      by (subst string_of_nat.simps) (simp add: digit_char_not_zero)
  next
    case False
    then have "0 < n div 10" by simp
    with False have "hd (string_of_nat (n div 10)) \<noteq> CHR ''0''" by (rule 1(1))
    then show ?thesis
      using False by (subst string_of_nat.simps) (simp add: string_of_nat_nonempty)
  qed
qed

section \<open>The stages of the run\<close>

lemma no_hint_for_missing_input:
  "\<not> includes_str (''Input required and not supplied: '' @ ''github-token'') ''Not Found''"
  "\<not> includes_str (''Input required and not supplied: '' @ ''reason'') ''Not Found''"
  by simp_all

lemma no_hint_for_missing_context:
  "\<not> includes_str
     ''event context does not contain pull request data - ensure this action was triggered on a `pull_request` event''
     ''Not Found''"
  by simp

lemma try_block_no_token:
  assumes "inp ''github-token'' = None \<or> inp ''github-token'' = Some []"
  shows "try_block inp gh =
           Some ([], Inl (JsError (''Input required and not supplied: '' @ ''github-token'')))"
  using getInput_required_absent[of inp "''github-token''"] assms by (simp add: try_block_def)

lemma try_block_no_pull_request:
  assumes "getInput inp ''github-token'' True = Inr token"
    and "payload_pull_request (gh_context gh) = None"
  shows "try_block inp gh =
           Some ([], Inl (JsError
             ''event context does not contain pull request data - ensure this action was triggered on a `pull_request` event''))"
  using assms by (simp add: try_block_def)

lemma try_block_collected:
  assumes "getInput inp ''github-token'' True = Inr token"
    and "payload_pull_request (gh_context gh) = Some pr"
    and "getOctokit gh token = Inr octokit"
    and "getPullRequestApprovals octokit (gh_context gh) (number pr) = Some (calls, Inr approvals)"
    and "getInput inp ''excluding-shas'' False = Inr excludingShasInput"
  shows "try_block inp gh =
           (case getInput inp ''reason'' True of
              Inl e \<Rightarrow> Some (calls, Inl e)
            | Inr reason \<Rightarrow>
                (case dismissApprovals inp octokit (gh_context gh)
                        (map review_id
                           (approvalsToProcess (excludingShas_of excludingShasInput) approvals))
                        (number pr) reason of
                   (calls', r) \<Rightarrow> Some (calls @ calls', r)))"
  using assms by (simp add: try_block_def Let_def)

lemma getPullRequestApprovals_asks:
  assumes "getPullRequestApprovals octokit ctx prNumber = Some (calls, r)"
  shows "calls \<noteq> []"
proof -
  from assms have "collect_pages octokit ctx prNumber 1 [] [] = Some (calls, r)"
    by (simp add: getPullRequestApprovals_def)
  from collect_pages_returns_only[OF this]
  obtain N where "1 \<le> N" "calls = map (request_of ctx prNumber) [1..<Suc N]" by auto
  then show ?thesis by (simp del: upt_Suc)
qed

text \<open>The example of the specification for the exclusion input.\<close>

lemma excludingShas_of_example: "excludingShas_of ''abc, def'' = [''abc'', ''def'']"
  by code_simp

section \<open>Properties of the Approval Collector\<close>

text \<open>
  C1. Take any non-empty sequence of page responses of which every page but the last
  carries a link header with the next relation, and the last has no link header or
  one without that relation. Served these pages, the collector returns normally after
  issuing exactly the listing requests for pages 1, 2, \<dots>, N in this order, N being the
  number of pages: it starts at 1, steps by 1, asks for nothing after page N, and N
  is arbitrary, so no cap on the number of pages cuts the loop short. Nothing else
  ends the loop: served by a client whose every page advertises a next one, the
  collector never returns.
\<close>

theorem collector_requests_pages_1_to_N:
  assumes "pages \<noteq> []"
    and "on_pages octokit ctx prNumber pages"
    and "\<forall>r \<in> set (butlast pages). advertises_next r"
    and "\<not> advertises_next (last pages)"
  shows "(\<exists>approvals.
            getPullRequestApprovals octokit ctx prNumber =
              Some (map (\<lambda>page. ListReviews (repo_owner ctx) (repo_repo ctx) prNumber page)
                      [1..<Suc (length pages)],
                    Inr approvals))
         \<and> (\<forall>client :: octokit.
              (\<forall>page. 1 \<le> page \<longrightarrow>
                 (\<exists>result. listReviews client (repo_owner ctx) (repo_repo ctx) prNumber page =
                              Inr result \<and> advertises_next result)) \<longrightarrow>
              getPullRequestApprovals client ctx prNumber = None)"
proof
  show "\<exists>approvals.
      getPullRequestApprovals octokit ctx prNumber =
        Some (map (\<lambda>page. ListReviews (repo_owner ctx) (repo_repo ctx) prNumber page)
                [1..<Suc (length pages)],
              Inr approvals)"
    using getPullRequestApprovals_on_pages[OF assms] by simp
next
  show "\<forall>client :: octokit.
      (\<forall>page. 1 \<le> page \<longrightarrow>
         (\<exists>result. listReviews client (repo_owner ctx) (repo_repo ctx) prNumber page =
                      Inr result \<and> advertises_next result)) \<longrightarrow>
      getPullRequestApprovals client ctx prNumber = None"
  proof (intro allI impI)
    fix client :: octokit
    assume endless: "\<forall>page. 1 \<le> page \<longrightarrow>
      (\<exists>result. listReviews client (repo_owner ctx) (repo_repo ctx) prNumber page =
                   Inr result \<and> advertises_next result)"
    have "\<forall>p. 1 \<le> p \<longrightarrow> more_after client ctx prNumber p"
    proof (intro allI impI)
      fix p :: nat
      assume "1 \<le> p"
      with endless obtain result
        where "listReviews client (repo_owner ctx) (repo_repo ctx) prNumber p = Inr result"
          and "advertises_next result"
        by blast
      then show "more_after client ctx prNumber p"
        by (simp add: more_after_def page_of_def)
    qed
    then show "getPullRequestApprovals client ctx prNumber = None"
      by (rule getPullRequestApprovals_never_returns)
  qed
qed

theorem collector_requests_pages_1_to_N_witness:
  "three_pages \<noteq> [] \<and> on_pages (paged_octokit three_pages) widgets_pr7 7 three_pages \<and>
   advertises_next (three_pages ! 0) \<and> advertises_next (three_pages ! 1) \<and>
   \<not> advertises_next (three_pages ! 2) \<and>
   (\<exists>approvals.
      getPullRequestApprovals (paged_octokit three_pages) widgets_pr7 7 =
        Some ([ListReviews ''acme'' ''widgets'' 7 1, ListReviews ''acme'' ''widgets'' 7 2,
               ListReviews ''acme'' ''widgets'' 7 3],
              Inr approvals))"
proof -
  have shape: "advertises_next (three_pages ! 0)" "advertises_next (three_pages ! 1)"
    "\<not> advertises_next (three_pages ! 2)"
    by (simp_all add: three_pages_def advertises_next_includes)
  have requests:
    "map (\<lambda>page. ListReviews (repo_owner widgets_pr7) (repo_repo widgets_pr7) 7 page)
       [1..<Suc (length three_pages)] =
     [ListReviews ''acme'' ''widgets'' 7 1, ListReviews ''acme'' ''widgets'' 7 2,
      ListReviews ''acme'' ''widgets'' 7 3]"
    by (simp add: widgets_pr7_def three_pages_def upt_rec)
  have "\<exists>approvals.
      getPullRequestApprovals (paged_octokit three_pages) widgets_pr7 7 =
        Some ([ListReviews ''acme'' ''widgets'' 7 1, ListReviews ''acme'' ''widgets'' 7 2,
               ListReviews ''acme'' ''widgets'' 7 3],
              Inr approvals)"
    using collector_requests_pages_1_to_N
      [OF three_pages_shape(1) on_pages_paged_octokit three_pages_shape(2,3), of widgets_pr7 7,
       THEN conjunct1]
    by (simp only: requests)
  with shape three_pages_shape(1) on_pages_paged_octokit[of three_pages widgets_pr7 7]
  show ?thesis by (intro conjI)
qed

text \<open>
  C5. Under the same reading of a sequence of page responses, the collector returns
  exactly the reviews whose state is the approved one (the string \<^verbatim>\<open>APPROVED\<close> of the
  source), page after page and in the order of each page. And whatever the client
  answers, a list the collector returns holds approved reviews only.
\<close>

theorem collector_returns_the_approved_reviews:
  assumes "pages \<noteq> []"
    and "on_pages octokit ctx prNumber pages"
    and "\<forall>r \<in> set (butlast pages). advertises_next r"
    and "\<not> advertises_next (last pages)"
  shows "(\<exists>calls.
            getPullRequestApprovals octokit ctx prNumber =
              Some (calls,
                    Inr (filter (\<lambda>review. state review = ''APPROVED'') (concat (map data pages)))))
         \<and> (\<forall>client calls found.
              getPullRequestApprovals client ctx prNumber = Some (calls, Inr found) \<longrightarrow>
              (\<forall>review \<in> set found. state review = ''APPROVED''))"
proof
  show "\<exists>calls.
      getPullRequestApprovals octokit ctx prNumber =
        Some (calls, Inr (filter (\<lambda>review. state review = ''APPROVED'') (concat (map data pages))))"
    using getPullRequestApprovals_on_pages[OF assms] by (simp add: is_approved_fun)
next
  show "\<forall>client calls found.
      getPullRequestApprovals client ctx prNumber = Some (calls, Inr found) \<longrightarrow>
      (\<forall>review \<in> set found. state review = ''APPROVED'')"
  proof (intro allI impI)
    fix client calls found
    assume "getPullRequestApprovals client ctx prNumber = Some (calls, Inr found)"
    then have "collect_pages client ctx prNumber 1 [] [] = Some (calls, Inr found)"
      by (simp add: getPullRequestApprovals_def)
    from collect_pages_approved[OF this]
    have "\<forall>a \<in> set found. is_approved a" by simp
    then show "\<forall>review \<in> set found. state review = ''APPROVED''"
      by (simp add: is_approved_def)
  qed
qed

theorem collector_returns_the_approved_reviews_witness:
  "three_pages \<noteq> [] \<and> on_pages (paged_octokit three_pages) widgets_pr7 7 three_pages \<and>
   advertises_next (three_pages ! 0) \<and> advertises_next (three_pages ! 1) \<and>
   \<not> advertises_next (three_pages ! 2) \<and>
   (\<exists>calls.
      getPullRequestApprovals (paged_octokit three_pages) widgets_pr7 7 =
        Some (calls, Inr [review_1, review_3, review_4]))"
proof -
  have shape: "advertises_next (three_pages ! 0)" "advertises_next (three_pages ! 1)"
    "\<not> advertises_next (three_pages ! 2)"
    by (simp_all add: three_pages_def advertises_next_includes)
  have found:
    "filter (\<lambda>review. state review = ''APPROVED'') (concat (map data three_pages)) =
       [review_1, review_3, review_4]"
    by (simp add: three_pages_def review_1_def review_2_def review_3_def review_4_def
          review_5_def)
  have "\<exists>calls.
      getPullRequestApprovals (paged_octokit three_pages) widgets_pr7 7 =
        Some (calls,
              Inr (filter (\<lambda>review. state review = ''APPROVED'')
                     (concat (map data three_pages))))"
    using collector_returns_the_approved_reviews
      [OF three_pages_shape(1) on_pages_paged_octokit three_pages_shape(2,3), of widgets_pr7 7]
    by (rule conjunct1)
  then have "\<exists>calls.
      getPullRequestApprovals (paged_octokit three_pages) widgets_pr7 7 =
        Some (calls, Inr [review_1, review_3, review_4])"
    by (simp only: found)
  with shape three_pages_shape(1) on_pages_paged_octokit[of three_pages widgets_pr7 7]
  show ?thesis by (intro conjI)
qed

section \<open>Properties of the Exclusion Filter\<close>

text \<open>
  C2. For every sequence of approvals and every exclusion list, read as the set of its
  entries, the filter returns exactly the approvals for which the set is empty, or the
  commit id is null, or the commit id is not in the set; what it returns is a
  subsequence of its input, so the relative order is kept; and the approvals with a
  null commit id come out as they went in, whatever the set.
\<close>

theorem exclusion_filter_keeps_exactly:
  "approvalsToProcess excludingShas approvals =
     filter (\<lambda>approval. set excludingShas = {} \<or> commit_id approval = None \<or>
                         commit_id approval \<notin> Some ` set excludingShas) approvals
   \<and> subseq (approvalsToProcess excludingShas approvals) approvals
   \<and> filter (\<lambda>approval. commit_id approval = None) (approvalsToProcess excludingShas approvals) =
       filter (\<lambda>approval. commit_id approval = None) approvals"
proof -
  have keep: "(case commit_id approval of None \<Rightarrow> True | Some sha \<Rightarrow> sha \<notin> set excludingShas) =
      (commit_id approval = None \<or> commit_id approval \<notin> Some ` set excludingShas)"
    for approval :: review
    by (cases "commit_id approval") auto
  have eq: "approvalsToProcess excludingShas approvals =
     filter (\<lambda>approval. set excludingShas = {} \<or> commit_id approval = None \<or>
                         commit_id approval \<notin> Some ` set excludingShas) approvals"
    by (cases "excludingShas = []") (simp_all add: approvalsToProcess_def keep)
  have "filter (\<lambda>approval. commit_id approval = None)
          (filter (\<lambda>approval. set excludingShas = {} \<or> commit_id approval = None \<or>
                         commit_id approval \<notin> Some ` set excludingShas) approvals) =
       filter (\<lambda>approval. commit_id approval = None) approvals"
    by (simp add: conj_commute cong: conj_cong)
  then show ?thesis
    by (simp only: eq subseq_filter_left simp_thms)
qed

theorem exclusion_filter_keeps_exactly_witness:
  "approvalsToProcess [''abc'', ''123''] [review_1, review_3, review_4] = [review_3, review_4]"
proof -
  have "approvalsToProcess [''abc'', ''123''] [review_1, review_3, review_4] =
     filter (\<lambda>approval. set [''abc'', ''123''] = {} \<or> commit_id approval = None \<or>
                         commit_id approval \<notin> Some ` set [''abc'', ''123''])
       [review_1, review_3, review_4]"
    using exclusion_filter_keeps_exactly[of "[''abc'', ''123'']" "[review_1, review_3, review_4]"]
    by (rule conjunct1)
  then show ?thesis
    by (simp add: review_1_def review_3_def review_4_def)
qed

section \<open>Properties of the Dismissal Executor\<close>

text \<open>
  C3. For every non-empty list of approval ids, when the dry-run input reads as true,
  the executor issues one call and no more: the creation of a comment on the pull
  request. Its body is the fixed sentence around a count and the reason, where the
  count is a non-empty string of decimal digits without a leading zero whose value,
  read digit by digit, is the number of ids. No dismissal is issued, and the executor
  ends as the comment call does.
\<close>

theorem dry_run_posts_one_comment:
  assumes "approvalIds \<noteq> []"
    and "getBooleanInput inp ''dry-run'' = Inr True"
  shows "\<exists>count body.
           count \<noteq> [] \<and> set count \<subseteq> set ''0123456789'' \<and> hd count \<noteq> CHR ''0''
           \<and> foldl (\<lambda>acc c. 10 * acc + digit_value c) 0 count = length approvalIds
           \<and> body = ''dismiss_stale_approvals dry run: Would have dismissed '' @ count @
                    '' approvals with reason:'' @ [CHR 0x0A, CHR 0x0A] @ reason
           \<and> dismissApprovals inp octokit ctx approvalIds prNumber reason =
               ([CreateComment (repo_owner ctx) (repo_repo ctx) prNumber body],
                createComment octokit (repo_owner ctx) (repo_repo ctx) prNumber body)
           \<and> filter is_dismissal
                (fst (dismissApprovals inp octokit ctx approvalIds prNumber reason)) = []"
proof -
  let ?count = "string_of_nat (length approvalIds)"
  let ?body = "''dismiss_stale_approvals dry run: Would have dismissed '' @ ?count @
               '' approvals with reason:'' @ [CHR 0x0A, CHR 0x0A] @ reason"
  have positive: "0 < length approvalIds" using assms(1) by simp
  have "?count \<noteq> []" by (rule string_of_nat_nonempty)
  moreover have "set ?count \<subseteq> set ''0123456789''" by (rule string_of_nat_digits)
  moreover have "hd ?count \<noteq> CHR ''0''"
    using positive by (rule string_of_nat_no_leading_zero)
  moreover have "foldl (\<lambda>acc c. 10 * acc + digit_value c) 0 ?count = length approvalIds"
    by (rule string_of_nat_value)
  moreover have "dismissApprovals inp octokit ctx approvalIds prNumber reason =
      ([CreateComment (repo_owner ctx) (repo_repo ctx) prNumber ?body],
       createComment octokit (repo_owner ctx) (repo_repo ctx) prNumber ?body)"
    using assms by (simp add: dismissApprovals_def Let_def)
  moreover from this have "filter is_dismissal
      (fst (dismissApprovals inp octokit ctx approvalIds prNumber reason)) = []"
    by simp
  ultimately show ?thesis by blast
qed

theorem dry_run_posts_one_comment_witness:
  "[1, 2] \<noteq> ([] :: int list) \<and> getBooleanInput inputs_dry_run ''dry-run'' = Inr True \<and>
   (\<exists>count.
      count \<noteq> [] \<and> set count \<subseteq> set ''0123456789'' \<and> hd count \<noteq> CHR ''0'' \<and>
      foldl (\<lambda>acc c. 10 * acc + digit_value c) 0 count = 2 \<and>
      dismissApprovals inputs_dry_run (paged_octokit three_pages) widgets_pr7 [1, 2] 7 ''stale'' =
        ([CreateComment ''acme'' ''widgets'' 7
            (''dismiss_stale_approvals dry run: Would have dismissed '' @ count @
             '' approvals with reason:'' @ [CHR 0x0A, CHR 0x0A] @ ''stale'')],
         Inr ())) \<and>
   dismissApprovals inputs_dry_run (paged_octokit three_pages) widgets_pr7 [1, 2] 7 ''stale'' =
     ([CreateComment ''acme'' ''widgets'' 7
         (''dismiss_stale_approvals dry run: Would have dismissed 2 approvals with reason:'' @
          [CHR 0x0A, CHR 0x0A] @ ''stale'')],
      Inr ())"
proof -
  have flag: "getBooleanInput inputs_dry_run ''dry-run'' = Inr True"
    by (simp add: getBooleanInput_def getInput_def inputs_dry_run_def trim_def is_space_def)
  have ids: "[1, 2] \<noteq> ([] :: int list)" by simp
  have owner: "repo_owner widgets_pr7 = ''acme''" and repo: "repo_repo widgets_pr7 = ''widgets''"
    by (simp_all add: widgets_pr7_def)
  have accepted: "createComment (paged_octokit three_pages) owner repo issue_number body = Inr ()"
    for owner repo issue_number body
    by (simp add: paged_octokit_def)
  have two: "length [1, 2 :: int] = 2" by simp
  from dry_run_posts_one_comment[OF ids flag, where octokit = "paged_octokit three_pages"
      and ctx = widgets_pr7 and prNumber = 7 and reason = "''stale''"]
  obtain count body where
    count: "count \<noteq> []" "set count \<subseteq> set ''0123456789''" "hd count \<noteq> CHR ''0''"
      "foldl (\<lambda>acc c. 10 * acc + digit_value c) 0 count = length [1, 2 :: int]"
    and body: "body = ''dismiss_stale_approvals dry run: Would have dismissed '' @ count @
                    '' approvals with reason:'' @ [CHR 0x0A, CHR 0x0A] @ ''stale''"
    and posted:
      "dismissApprovals inputs_dry_run (paged_octokit three_pages) widgets_pr7 [1, 2] 7 ''stale'' =
         ([CreateComment (repo_owner widgets_pr7) (repo_repo widgets_pr7) 7 body],
          createComment (paged_octokit three_pages) (repo_owner widgets_pr7)
            (repo_repo widgets_pr7) 7 body)"
    by blast
  from posted have
    "dismissApprovals inputs_dry_run (paged_octokit three_pages) widgets_pr7 [1, 2] 7 ''stale'' =
        ([CreateComment ''acme'' ''widgets'' 7
            (''dismiss_stale_approvals dry run: Would have dismissed '' @ count @
             '' approvals with reason:'' @ [CHR 0x0A, CHR 0x0A] @ ''stale'')],
         Inr ())"
    by (simp only: owner repo accepted body)
  with count have stated: "\<exists>count.
      count \<noteq> [] \<and> set count \<subseteq> set ''0123456789'' \<and> hd count \<noteq> CHR ''0'' \<and>
      foldl (\<lambda>acc c. 10 * acc + digit_value c) 0 count = 2 \<and>
      dismissApprovals inputs_dry_run (paged_octokit three_pages) widgets_pr7 [1, 2] 7 ''stale'' =
        ([CreateComment ''acme'' ''widgets'' 7
            (''dismiss_stale_approvals dry run: Would have dismissed '' @ count @
             '' approvals with reason:'' @ [CHR 0x0A, CHR 0x0A] @ ''stale'')],
         Inr ())"
    unfolding two by (intro exI[of _ count] conjI)
  have printed:
    "dismissApprovals inputs_dry_run (paged_octokit three_pages) widgets_pr7 [1, 2] 7 ''stale'' =
     ([CreateComment ''acme'' ''widgets'' 7
         (''dismiss_stale_approvals dry run: Would have dismissed 2 approvals with reason:'' @
          [CHR 0x0A, CHR 0x0A] @ ''stale'')],
      Inr ())"
    by code_simp
  from ids flag stated printed show ?thesis by (intro conjI)
qed

text \<open>
  C4. For every non-empty list of approval ids, when the dry-run input reads as false,
  the calls of the executor are the dismissals of the ids of the list, one for each
  entry and in its order, each on the pull request and with the reason as its message;
  there is no comment among them.
\<close>

theorem live_run_dismisses_each_id:
  assumes "approvalIds \<noteq> []"
    and "getBooleanInput inp ''dry-run'' = Inr False"
  shows "fst (dismissApprovals inp octokit ctx approvalIds prNumber reason) =
           map (\<lambda>approvalId.
                  DismissReview (repo_owner ctx) (repo_repo ctx) prNumber approvalId reason)
             approvalIds
         \<and> filter is_comment
              (fst (dismissApprovals inp octokit ctx approvalIds prNumber reason)) = []"
  using assms by (simp add: dismissApprovals_def filter_map comp_def)

theorem live_run_dismisses_each_id_witness:
  "[1, 2] \<noteq> ([] :: int list) \<and> getBooleanInput inputs_live ''dry-run'' = Inr False \<and>
   fst (dismissApprovals inputs_live (paged_octokit three_pages) widgets_pr7 [1, 2] 7 ''stale'') =
     [DismissReview ''acme'' ''widgets'' 7 1 ''stale'',
      DismissReview ''acme'' ''widgets'' 7 2 ''stale'']"
proof -
  have flag: "getBooleanInput inputs_live ''dry-run'' = Inr False"
    by (simp add: getBooleanInput_def getInput_def inputs_live_def trim_def is_space_def)
  have "[1, 2] \<noteq> ([] :: int list)" by simp
  from live_run_dismisses_each_id[OF this flag, where octokit = "paged_octokit three_pages"
      and ctx = widgets_pr7 and prNumber = 7 and reason = "''stale''"]
  have "fst (dismissApprovals inputs_live (paged_octokit three_pages) widgets_pr7 [1, 2] 7 ''stale'') =
     [DismissReview ''acme'' ''widgets'' 7 1 ''stale'',
      DismissReview ''acme'' ''widgets'' 7 2 ''stale'']"
    by (simp add: widgets_pr7_def)
  with flag show ?thesis by simp
qed

section \<open>Properties of the run\<close>

text \<open>
  C6. The specification has both required inputs read before the collector runs. The
  code reads the token first, but the reason last: after the collector and the
  filter, as an argument of the call of the executor. What holds is this. In every
  run that lacks the reason while the token is supplied, the payload has a pull
  request, the client is built and the collector returns its list, the run fails with
  the message that the required input \<^verbatim>\<open>reason\<close> was not supplied; the requests made
  until then are those of the collector, at least one and listing requests only, and
  neither a comment nor a dismissal is issued.
\<close>

theorem reason_is_read_after_collection:
  assumes "inp ''reason'' = None \<or> inp ''reason'' = Some []"
    and "getInput inp ''github-token'' True = Inr token"
    and "payload_pull_request (gh_context gh) = Some pr"
    and "getOctokit gh token = Inr octokit"
    and "getPullRequestApprovals octokit (gh_context gh) (number pr) = Some (calls, Inr approvals)"
  shows "run inp gh =
           Some (calls, \<lparr>warnings = [],
                         failed = Some ''Input required and not supplied: reason''\<rparr>)
         \<and> calls \<noteq> [] \<and> (\<forall>c \<in> set calls. is_listing c)"
proof -
  have reason: "getInput inp ''reason'' True =
      Inl (JsError (''Input required and not supplied: '' @ ''reason''))"
    using getInput_required_absent[of inp "''reason''"] assms(1) by simp
  have "try_block inp gh =
      Some (calls, Inl (JsError (''Input required and not supplied: '' @ ''reason'')))"
    using try_block_collected[OF assms(2-5) getInput_optional] by (simp add: reason)
  then have "run inp gh =
      Some (calls, \<lparr>warnings = [],
                    failed = Some ''Input required and not supplied: reason''\<rparr>)"
    using no_hint_for_missing_input(2) by (simp add: run_def on_catch_def)
  moreover have "calls \<noteq> []"
    using assms(5) by (rule getPullRequestApprovals_asks)
  moreover have "\<forall>c \<in> set calls. is_listing c"
    using assms(5) by (rule getPullRequestApprovals_lists_only)
  ultimately show ?thesis by (intro conjI)
qed

theorem reason_is_read_after_collection_witness:
  "inputs_no_reason ''reason'' = None \<and>
   getInput inputs_no_reason ''github-token'' True = Inr ''t0ken'' \<and>
   getPullRequestApprovals (paged_octokit single_page) widgets_pr7 7 =
     Some ([ListReviews ''acme'' ''widgets'' 7 1], Inr [review_1]) \<and>
   run inputs_no_reason (github_of widgets_pr7 (paged_octokit single_page)) =
     Some ([ListReviews ''acme'' ''widgets'' 7 1],
           \<lparr>warnings = [], failed = Some ''Input required and not supplied: reason''\<rparr>)"
proof -
  have reason: "inputs_no_reason ''reason'' = None"
    by (simp add: inputs_no_reason_def)
  have token: "getInput inputs_no_reason ''github-token'' True = Inr ''t0ken''"
    by code_simp
  have pr: "payload_pull_request (gh_context (github_of widgets_pr7 (paged_octokit single_page))) =
      Some \<lparr>number = 7\<rparr>"
    by (simp add: github_of_def widgets_pr7_def)
  have client: "getOctokit (github_of widgets_pr7 (paged_octokit single_page)) ''t0ken'' =
      Inr (paged_octokit single_page)"
    by (simp add: github_of_def)
  have collected: "getPullRequestApprovals (paged_octokit single_page) widgets_pr7 7 =
      Some ([ListReviews ''acme'' ''widgets'' 7 1], Inr [review_1])"
    by code_simp
  have collected': "getPullRequestApprovals (paged_octokit single_page)
      (gh_context (github_of widgets_pr7 (paged_octokit single_page))) (number \<lparr>number = 7\<rparr>) =
      Some ([ListReviews ''acme'' ''widgets'' 7 1], Inr [review_1])"
    using collected by (simp add: github_of_def)
  from reason have "inputs_no_reason ''reason'' = None \<or> inputs_no_reason ''reason'' = Some []"
    by simp
  from reason_is_read_after_collection
    [of inputs_no_reason "''t0ken''" "github_of widgets_pr7 (paged_octokit single_page)",
     OF this token pr client collected']
  have "run inputs_no_reason (github_of widgets_pr7 (paged_octokit single_page)) =
     Some ([ListReviews ''acme'' ''widgets'' 7 1],
           \<lparr>warnings = [], failed = Some ''Input required and not supplied: reason''\<rparr>)"
    by (rule conjunct1)
  with reason token collected show ?thesis by (intro conjI)
qed

text \<open>
  That the run fails before the collector issues a request does not hold: in this run
  the reason is absent, and three pages have been requested by the time the run fails.
\<close>

theorem reason_absent_yet_pages_requested_counterexample:
  "inputs_no_reason ''reason'' = None \<and>
   run inputs_no_reason (github_of widgets_pr7 (paged_octokit three_pages)) =
     Some ([ListReviews ''acme'' ''widgets'' 7 1, ListReviews ''acme'' ''widgets'' 7 2,
            ListReviews ''acme'' ''widgets'' 7 3],
           \<lparr>warnings = [], failed = Some ''Input required and not supplied: reason''\<rparr>)"
  by code_simp

text \<open>
  C7. For every run whose payload has no pull request and whose token is supplied,
  the run fails without any request having been made, and the failure message is the
  one that tells the caller to trigger the action on a \<^verbatim>\<open>pull_request\<close> event. The
  token has to be supplied for this: it is read before the payload is looked at.
\<close>

theorem missing_pull_request_fails_before_any_call:
  assumes "inp ''github-token'' = Some v" and "v \<noteq> []"
    and "payload_pull_request (gh_context gh) = None"
  shows "run inp gh =
           Some ([], \<lparr>warnings = [],
                      failed = Some ''event context does not contain pull request data - ensure this action was triggered on a `pull_request` event''\<rparr>)"
proof -
  have "getInput inp ''github-token'' True = Inr (trim v)"
    using getInput_required_present[of inp "''github-token''" v] assms(1,2) by simp
  from try_block_no_pull_request[OF this assms(3)] no_hint_for_missing_context
  show ?thesis by (simp add: run_def on_catch_def)
qed

theorem missing_pull_request_fails_before_any_call_witness:
  "inputs_live ''github-token'' = Some ''t0ken'' \<and>
   payload_pull_request (gh_context (github_of widgets_push (paged_octokit three_pages))) = None \<and>
   run inputs_live (github_of widgets_push (paged_octokit three_pages)) =
     Some ([], \<lparr>warnings = [],
                failed = Some ''event context does not contain pull request data - ensure this action was triggered on a `pull_request` event''\<rparr>)"
proof -
  have token: "inputs_live ''github-token'' = Some ''t0ken''"
    by (simp add: inputs_live_def)
  have none: "payload_pull_request (gh_context (github_of widgets_push (paged_octokit three_pages))) = None"
    by (simp add: github_of_def widgets_push_def)
  have "''t0ken'' \<noteq> []" by simp
  from missing_pull_request_fails_before_any_call
      [of inputs_live "''t0ken''" "github_of widgets_push (paged_octokit three_pages)",
       OF token this none] token none
  show ?thesis by (intro conjI)
qed

text \<open>
  Without the token, a run whose payload has no pull request fails with the message
  about the token, not with the one about the event (and still without a request).
\<close>

theorem missing_pull_request_message_counterexample:
  "payload_pull_request (gh_context (github_of widgets_push (paged_octokit three_pages))) = None \<and>
   run inputs_no_token (github_of widgets_push (paged_octokit three_pages)) =
     Some ([], \<lparr>warnings = [],
                failed = Some ''Input required and not supplied: github-token''\<rparr>)"
  by code_simp

text \<open>
  C8. Take any run that gets as far as an empty final list of approval ids. The
  executor on the empty list makes no call and returns normally, whatever the dry-run
  input holds; the requests of the whole run are the listing requests of the
  collector; and the run ends in success when the reason is supplied. When the reason
  is absent the run fails with the missing input message instead, since the reason is
  read before the executor is entered, also for an empty list.
\<close>

theorem empty_final_list_makes_no_executor_call:
  assumes "getInput inp ''github-token'' True = Inr token"
    and "payload_pull_request (gh_context gh) = Some pr"
    and "getOctokit gh token = Inr octokit"
    and "getPullRequestApprovals octokit (gh_context gh) (number pr) = Some (calls, Inr approvals)"
    and "getInput inp ''excluding-shas'' False = Inr excludingShasInput"
    and "map review_id (approvalsToProcess (excludingShas_of excludingShasInput) approvals) = []"
  shows "dismissApprovals inp octokit (gh_context gh) [] (number pr) reason = ([], Inr ())
         \<and> (\<forall>c \<in> set calls. is_listing c)
         \<and> ((\<exists>v. inp ''reason'' = Some v \<and> v \<noteq> []) \<longrightarrow>
              run inp gh = Some (calls, \<lparr>warnings = [], failed = None\<rparr>))
         \<and> (inp ''reason'' = None \<or> inp ''reason'' = Some [] \<longrightarrow>
              run inp gh =
                Some (calls, \<lparr>warnings = [],
                              failed = Some ''Input required and not supplied: reason''\<rparr>))"
proof (intro conjI impI)
  show "dismissApprovals inp octokit (gh_context gh) [] (number pr) reason = ([], Inr ())"
    by (simp add: dismissApprovals_def)
next
  show "\<forall>c \<in> set calls. is_listing c"
    using assms(4) by (rule getPullRequestApprovals_lists_only)
next
  assume "\<exists>v. inp ''reason'' = Some v \<and> v \<noteq> []"
  then obtain v where "inp ''reason'' = Some v" "v \<noteq> []" by blast
  then have reason: "getInput inp ''reason'' True = Inr (trim v)"
    using getInput_required_present[of inp "''reason''" v] by simp
  have "try_block inp gh = Some (calls, Inr ())"
    using try_block_collected[OF assms(1-5)]
    by (simp add: reason assms(6) dismissApprovals_def)
  then show "run inp gh = Some (calls, \<lparr>warnings = [], failed = None\<rparr>)"
    by (simp add: run_def)
next
  assume "inp ''reason'' = None \<or> inp ''reason'' = Some []"
  then have reason: "getInput inp ''reason'' True =
      Inl (JsError (''Input required and not supplied: '' @ ''reason''))"
    using getInput_required_absent[of inp "''reason''"] by simp
  have "try_block inp gh =
      Some (calls, Inl (JsError (''Input required and not supplied: '' @ ''reason'')))"
    using try_block_collected[OF assms(1-5)] by (simp add: reason)
  then show "run inp gh =
      Some (calls, \<lparr>warnings = [],
                    failed = Some ''Input required and not supplied: reason''\<rparr>)"
    using no_hint_for_missing_input(2) by (simp add: run_def on_catch_def)
qed

theorem empty_final_list_makes_no_executor_call_witness:
  "inputs_live ''reason'' = Some ''stale'' \<and>
   getPullRequestApprovals (paged_octokit quiet_page) widgets_pr7 7 =
     Some ([ListReviews ''acme'' ''widgets'' 7 1], Inr []) \<and>
   dismissApprovals inputs_live (paged_octokit quiet_page) widgets_pr7 [] 7 ''stale'' =
     ([], Inr ()) \<and>
   run inputs_live (github_of widgets_pr7 (paged_octokit quiet_page)) =
     Some ([ListReviews ''acme'' ''widgets'' 7 1], \<lparr>warnings = [], failed = None\<rparr>)"
proof -
  let ?gh = "github_of widgets_pr7 (paged_octokit quiet_page)"
  have reason: "inputs_live ''reason'' = Some ''stale''"
    by (simp add: inputs_live_def)
  have token: "getInput inputs_live ''github-token'' True = Inr ''t0ken''"
    by code_simp
  have pr: "payload_pull_request (gh_context ?gh) = Some \<lparr>number = 7\<rparr>"
    by (simp add: github_of_def widgets_pr7_def)
  have client: "getOctokit ?gh ''t0ken'' = Inr (paged_octokit quiet_page)"
    by (simp add: github_of_def)
  have collected: "getPullRequestApprovals (paged_octokit quiet_page) widgets_pr7 7 =
      Some ([ListReviews ''acme'' ''widgets'' 7 1], Inr [])"
    by code_simp
  have collected': "getPullRequestApprovals (paged_octokit quiet_page) (gh_context ?gh)
      (number \<lparr>number = 7\<rparr>) = Some ([ListReviews ''acme'' ''widgets'' 7 1], Inr [])"
    using collected by (simp add: github_of_def)
  have excluding: "getInput inputs_live ''excluding-shas'' False = Inr ''abc, 123''"
    by code_simp
  have final: "map review_id (approvalsToProcess (excludingShas_of ''abc, 123'') []) = []"
    by (simp add: approvalsToProcess_def)
  note all = empty_final_list_makes_no_executor_call
    [of inputs_live "''t0ken''" ?gh, OF token pr client collected' excluding final,
     where reason = "''stale''"]
  have "dismissApprovals inputs_live (paged_octokit quiet_page) widgets_pr7 [] 7 ''stale'' =
      ([], Inr ())"
    using all by (simp add: github_of_def)
  moreover have "run inputs_live ?gh =
      Some ([ListReviews ''acme'' ''widgets'' 7 1], \<lparr>warnings = [], failed = None\<rparr>)"
    using all reason by simp
  ultimately show ?thesis using reason collected by (intro conjI)
qed

text \<open>
  A run with an empty final list that does not end in success: no review is approved
  here, so the final list is empty, and the run fails for want of the reason.
\<close>

theorem empty_final_list_yet_run_fails_counterexample:
  "getPullRequestApprovals (paged_octokit quiet_page) widgets_pr7 7 =
     Some ([ListReviews ''acme'' ''widgets'' 7 1], Inr []) \<and>
   run inputs_no_reason (github_of widgets_pr7 (paged_octokit quiet_page)) =
     Some ([ListReviews ''acme'' ''widgets'' 7 1],
           \<lparr>warnings = [], failed = Some ''Input required and not supplied: reason''\<rparr>)"
  by code_simp

text \<open>
  C9. For every thrown value that is not an instance of \<^verbatim>\<open>Error\<close>, the handler
  writes no warning and sets no failure; hence every run whose \<^verbatim>\<open>try\<close> block throws
  such a value ends with its requests made and without a failure signal.
\<close>

theorem non_error_throwables_are_dropped:
  assumes "\<not> is_JsError error"
  shows "on_catch error = \<lparr>warnings = [], failed = None\<rparr>
         \<and> (\<forall>inp gh calls.
               try_block inp gh = Some (calls, Inl error) \<longrightarrow>
               run inp gh = Some (calls, \<lparr>warnings = [], failed = None\<rparr>))"
proof -
  from assms obtain v where "error = NonError v" by (cases error) auto
  then have "on_catch error = \<lparr>warnings = [], failed = None\<rparr>"
    by (simp add: on_catch_def)
  then show ?thesis by (simp add: run_def)
qed

theorem non_error_throwables_are_dropped_witness:
  "\<not> is_JsError (NonError ''boom'') \<and>
   try_block inputs_live (github_of widgets_pr7 (rejecting_octokit (NonError ''boom''))) =
     Some ([ListReviews ''acme'' ''widgets'' 7 1], Inl (NonError ''boom'')) \<and>
   run inputs_live (github_of widgets_pr7 (rejecting_octokit (NonError ''boom''))) =
     Some ([ListReviews ''acme'' ''widgets'' 7 1], \<lparr>warnings = [], failed = None\<rparr>)"
proof -
  have thrown: "try_block inputs_live (github_of widgets_pr7 (rejecting_octokit (NonError ''boom''))) =
     Some ([ListReviews ''acme'' ''widgets'' 7 1], Inl (NonError ''boom''))"
    by code_simp
  have not_error: "\<not> is_JsError (NonError ''boom'')" by simp
  from non_error_throwables_are_dropped[OF not_error] thrown
  have "run inputs_live (github_of widgets_pr7 (rejecting_octokit (NonError ''boom''))) =
     Some ([ListReviews ''acme'' ''widgets'' 7 1], \<lparr>warnings = [], failed = None\<rparr>)"
    by blast
  with not_error thrown show ?thesis by (intro conjI)
qed

text \<open>
  C10. For every run whose token is absent (not set, or empty), whatever the payload
  and the client, the run fails with the message that the required input
  \<^verbatim>\<open>github-token\<close> was not supplied, with no request made: the token is read
  before the payload is looked at, so this failure wins over the one for a missing
  pull request.
\<close>

theorem missing_token_takes_precedence:
  assumes "inp ''github-token'' = None \<or> inp ''github-token'' = Some []"
  shows "run inp gh =
           Some ([], \<lparr>warnings = [],
                      failed = Some ''Input required and not supplied: github-token''\<rparr>)"
  using try_block_no_token[of inp gh] assms no_hint_for_missing_input(1)
  by (simp add: run_def on_catch_def)

theorem missing_token_takes_precedence_witness:
  "inputs_blank_token ''github-token'' = Some [] \<and>
   payload_pull_request (gh_context (github_of widgets_push (paged_octokit three_pages))) = None \<and>
   run inputs_blank_token (github_of widgets_push (paged_octokit three_pages)) =
     Some ([], \<lparr>warnings = [],
                failed = Some ''Input required and not supplied: github-token''\<rparr>)"
proof -
  have blank: "inputs_blank_token ''github-token'' = Some []"
    by (simp add: inputs_blank_token_def)
  then have "inputs_blank_token ''github-token'' = None \<or>
      inputs_blank_token ''github-token'' = Some []" by simp
  from missing_token_takes_precedence
      [of inputs_blank_token "github_of widgets_push (paged_octokit three_pages)", OF this] blank
  show ?thesis
    by (simp add: github_of_def widgets_push_def)
qed

end
